theory Spec2Isabelle
  imports Main "HOL-Library.Product_Lexorder" "HOL-Library.Multiset"
begin

section \<open>Novice application review (dictionary/views/admin/novices.py)\<close>

text \<open>
  A shallow embedding of the admin views that list, accept and decline novice
  applications. Database tables are lists of rows (in storage order), every view
  function takes the state of the stores and returns the new one, and an exception is
  the left summand of the result. String literals of the source that contain Turkish
  letters are written with their ASCII transliteration.
\<close>

subsection \<open>Data model\<close>

type_synonym timestamp = int

record author =
  author_id :: nat
  username :: string
  email :: string
  is_novice :: bool
  application_status :: string
  application_date :: "timestamp option"
  last_activity :: "timestamp option"

text \<open>
  Modelled from the spec: the Entry model and its \<open>objects_published\<close> manager are
  declared in the models module. A content item has an authorship link and a
  "published" visibility flag.
\<close>

record entry =
  entry_id :: nat
  entry_author :: nat
  is_published :: bool

text \<open>
  Modelled from the spec: the Message model is declared in the models module. A direct
  message has a sender, a recipient and a body.
\<close>

record message =
  sender :: nat
  recipient :: nat
  body :: string

text \<open>
  Modelled from the spec: the audit log is keyed by actor, description, subject entity
  type and subject entity.
\<close>

record log_entry =
  actor :: nat
  description :: string
  content_type :: string
  object_id :: nat

record mail =
  subject :: string
  mail_body :: string
  from_email :: string
  recipient_list :: "string list"

datatype flash = Error string | Success string

text \<open>The writes to the stores and the mail transport, in the order they are performed.\<close>

datatype effect =
    AuthorSaved nat
  | EntriesDeleted nat
  | AuditWritten nat
  | MessageStored nat
  | MailSent "string list"

record world =
  authors :: "author list"
  entries :: "entry list"
  messages :: "message list"
  log_entries :: "log_entry list"
  outbox :: "mail list"
  mail_transport_up :: bool
  flashes :: "flash list"
  trace :: "effect list"

text \<open>
  The constants imported from utils.settings are parameters, the two message templates
  as the function that \<open>format\<close> computes from the username. \<open>nulls_smallest\<close> is the
  database backend's rule for NULL in ORDER BY: below every other entry (SQLite, MySQL)
  or above every other entry (PostgreSQL, Oracle).
\<close>

record env =
  time_threshold_24h :: timestamp
  application_accept_message :: "string \<Rightarrow> string"
  application_decline_message :: "string \<Rightarrow> string"
  GENERIC_SUPERUSER_ID :: nat
  nulls_smallest :: bool

datatype error =
    Http404
  | DoesNotExist
  | MultipleObjectsReturned
  | TypeError
  | ValueError
  | SMTPException

datatype http_method = GET | HEAD | POST | OPTIONS | OTHER

record request =
  req_method :: http_method
  req_user :: nat
  is_authenticated :: bool
  has_perm :: bool
  kwargs_username :: string
  post_operation :: "string option"
  post_submit_type :: "string option"

datatype route = LoginPage | AdminNoviceList | AdminNoviceLookup "string option"

record page_context =
  ctx_entries :: "entry list"
  ctx_title :: string
  ctx_next :: "string option"

datatype response =
    Redirect route
  | TemplateResponse string page_context
  | OptionsResponse
  | NotAllowed

subsection \<open>The queue builder\<close>

text \<open>
  The annotation \<open>Case(When(last_activity >= t, then=2), When(last_activity <= t, then=1))\<close>:
  the first matching branch wins, a comparison with NULL matches no branch.
\<close>

definition activity :: "env \<Rightarrow> author \<Rightarrow> int option" where
  "activity cfg a =
     (case last_activity a of
        None \<Rightarrow> None
      | Some la \<Rightarrow>
          if la \<ge> time_threshold_24h cfg then Some 2
          else if la \<le> time_threshold_24h cfg then Some 1
          else None)"

text \<open>Sort keys of an ascending and of a descending ORDER BY column that may be NULL.\<close>

definition asc_key :: "env \<Rightarrow> int option \<Rightarrow> nat \<times> int" where
  "asc_key cfg v =
     (case v of None \<Rightarrow> (if nulls_smallest cfg then 0 else 2, 0) | Some x \<Rightarrow> (1, x))"

definition desc_key :: "env \<Rightarrow> int option \<Rightarrow> nat \<times> int" where
  "desc_key cfg v =
     (case v of None \<Rightarrow> (if nulls_smallest cfg then 2 else 0, 0) | Some x \<Rightarrow> (1, - x))"

text \<open>\<open>order_by("-activity", "application_date")\<close>. The database leaves the order of
  rows with equal keys open; here they keep their storage order.\<close>

definition order_key :: "env \<Rightarrow> author \<Rightarrow> (nat \<times> int) \<times> (nat \<times> int)" where
  "order_key cfg a = (desc_key cfg (activity cfg a), asc_key cfg (application_date a))"

definition novice_queryset :: "env \<Rightarrow> world \<Rightarrow> author list" where
  "novice_queryset cfg s =
     sort_key (order_key cfg)
       (filter (\<lambda>a. last_activity a \<noteq> None \<and> is_novice a \<and> application_status a = ''PN'')
          (authors s))"

definition novice_list :: "env \<Rightarrow> world \<Rightarrow> nat option \<Rightarrow> author list" where
  "novice_list cfg s limit =
     (case limit of
        Some n \<Rightarrow> take n (novice_queryset cfg s)
      | None \<Rightarrow> novice_queryset cfg s)"

subsection \<open>Store operations\<close>

text \<open>\<open>get_object_or_404(Author, username=...)\<close> and \<open>Author.objects.get(id=...)\<close>.\<close>

definition get_object_or_404 :: "world \<Rightarrow> string \<Rightarrow> error + author" where
  "get_object_or_404 s uname =
     (case filter (\<lambda>a. username a = uname) (authors s) of
        [] \<Rightarrow> Inl Http404
      | [a] \<Rightarrow> Inr a
      | _ \<Rightarrow> Inl MultipleObjectsReturned)"

definition objects_get :: "world \<Rightarrow> nat \<Rightarrow> error + author" where
  "objects_get s k =
     (case filter (\<lambda>a. author_id a = k) (authors s) of
        [] \<Rightarrow> Inl DoesNotExist
      | [a] \<Rightarrow> Inr a
      | _ \<Rightarrow> Inl MultipleObjectsReturned)"

text \<open>Membership of a model instance in a query set compares primary keys.\<close>

definition contains :: "author list \<Rightarrow> author \<Rightarrow> bool" where
  "contains qs a \<longleftrightarrow> author_id a \<in> set (map author_id qs)"

text \<open>\<open>user.save()\<close>: the row with the instance's primary key takes the instance's fields;
  without such a row the instance is inserted.\<close>

definition save :: "author \<Rightarrow> world \<Rightarrow> world" where
  "save u s =
     (if author_id u \<in> set (map author_id (authors s))
      then s\<lparr>authors := map (\<lambda>r. if author_id r = author_id u then u else r) (authors s),
             trace := trace s @ [AuthorSaved (author_id u)]\<rparr>
      else s\<lparr>authors := authors s @ [u],
             trace := trace s @ [AuthorSaved (author_id u)]\<rparr>)"

text \<open>
  Modelled from the spec: \<open>log_admin\<close> of the utils module is a write-append to the audit
  log keyed by (actor, description, subject entity type, subject entity).
\<close>

definition log_admin :: "string \<Rightarrow> nat \<Rightarrow> string \<Rightarrow> author \<Rightarrow> world \<Rightarrow> world" where
  "log_admin msg usr model obj s =
     s\<lparr>log_entries := log_entries s @
          [\<lparr>actor = usr, description = msg, content_type = model, object_id = author_id obj\<rparr>],
       trace := trace s @ [AuditWritten (author_id obj)]\<rparr>"

text \<open>
  Modelled from the spec: \<open>Message.objects.compose\<close> of the models module composes and
  stores a direct message (sender, recipient, body).
\<close>

definition compose :: "author \<Rightarrow> author \<Rightarrow> string \<Rightarrow> world \<Rightarrow> world" where
  "compose snd_a rcp_a txt s =
     s\<lparr>messages := messages s @
          [\<lparr>sender = author_id snd_a, recipient = author_id rcp_a, body = txt\<rparr>],
       trace := trace s @ [MessageStored (author_id rcp_a)]\<rparr>"

text \<open>
  \<open>send_mail\<close> of django.core.mail: blocking; when the transport fails it raises unless
  \<open>fail_silently\<close> is set, and then it reports zero messages sent.
\<close>

definition send_mail ::
  "string \<Rightarrow> string \<Rightarrow> string \<Rightarrow> string list \<Rightarrow> bool \<Rightarrow> world \<Rightarrow> (error + nat) \<times> world" where
  "send_mail subj txt frm rcpts fail_silently s =
     (if mail_transport_up s
      then (Inr 1,
            s\<lparr>outbox := outbox s @
                 [\<lparr>subject = subj, mail_body = txt, from_email = frm, recipient_list = rcpts\<rparr>],
              trace := trace s @ [MailSent rcpts]\<rparr>)
      else if fail_silently then (Inr 0, s)
      else (Inl SMTPException, s))"

text \<open>\<open>Entry.objects_published.filter(author=user)\<close> and its bulk \<open>delete()\<close>.\<close>

definition published_by :: "author \<Rightarrow> entry \<Rightarrow> bool" where
  "published_by u e \<longleftrightarrow> is_published e \<and> entry_author e = author_id u"

definition delete_published :: "author \<Rightarrow> world \<Rightarrow> world" where
  "delete_published u s =
     s\<lparr>entries := filter (\<lambda>e. \<not> published_by u e) (entries s),
       trace := trace s @ [EntriesDeleted (author_id u)]\<rparr>"

definition notify :: "flash \<Rightarrow> world \<Rightarrow> world" where
  "notify f s = s\<lparr>flashes := flashes s @ [f]\<rparr>"

subsection \<open>NoviceLookup\<close>

definition first_by_application_date :: "env \<Rightarrow> author list \<Rightarrow> author option" where
  "first_by_application_date cfg qs =
     (case sort_key (\<lambda>a. asc_key cfg (application_date a)) qs of
        [] \<Rightarrow> None
      | a # _ \<Rightarrow> Some a)"

definition later_pending :: "timestamp \<Rightarrow> author \<Rightarrow> bool" where
  "later_pending d a \<longleftrightarrow>
     is_novice a \<and> application_status a = ''PN'' \<and>
     (case application_date a of None \<Rightarrow> False | Some d' \<Rightarrow> d' > d)"

text \<open>The variable \<open>next_novice\<close> at the end of \<open>get_next_username\<close>.
  Comparing a missing \<open>last_activity\<close> raises TypeError; a filter on
  \<open>application_date__gt=None\<close> raises ValueError.\<close>

definition get_next_novice :: "env \<Rightarrow> author \<Rightarrow> world \<Rightarrow> error + author option" where
  "get_next_novice cfg novice s =
     (case last_activity novice of
        None \<Rightarrow> Inl TypeError
      | Some la \<Rightarrow>
          (case application_date novice of
             None \<Rightarrow> Inl ValueError
           | Some d \<Rightarrow>
               let next_novice =
                     (if la \<ge> time_threshold_24h cfg
                      then first_by_application_date cfg
                             (filter (\<lambda>a. later_pending d a \<and>
                                  (case last_activity a of None \<Rightarrow> False
                                   | Some x \<Rightarrow> x > time_threshold_24h cfg))
                                (authors s))
                      else None)
               in (case next_novice of
                     Some a \<Rightarrow> Inr (Some a)
                   | None \<Rightarrow>
                       Inr (first_by_application_date cfg
                              (filter (\<lambda>a. later_pending d a \<and>
                                   (case last_activity a of None \<Rightarrow> False
                                    | Some x \<Rightarrow> x < time_threshold_24h cfg))
                                 (authors s))))))"

definition get_next_username :: "env \<Rightarrow> author \<Rightarrow> world \<Rightarrow> error + string option" where
  "get_next_username cfg novice s =
     (case get_next_novice cfg novice s of
        Inl e \<Rightarrow> Inl e
      | Inr next_novice \<Rightarrow> Inr (map_option username next_novice))"

definition get_queryset :: "author \<Rightarrow> world \<Rightarrow> entry list" where
  "get_queryset novice s = take 10 (sort_key entry_id (filter (published_by novice) (entries s)))"

definition accept_info_msg :: "author \<Rightarrow> string" where
  "accept_info_msg user = username user @ '' nickli kullanicinin yazarlik talebi kabul edildi''"

definition decline_info_msg :: "author \<Rightarrow> string" where
  "decline_info_msg user =
     username user @ '' nickli kullanicinin yazarlik talebi kabul reddedildi''"

definition accept_application ::
  "env \<Rightarrow> request \<Rightarrow> author \<Rightarrow> world \<Rightarrow> (error + bool) \<times> world" where
  "accept_application cfg req novice s =
     (let user = novice\<lparr>application_status := ''AP'', is_novice := False\<rparr>;
          s1 = save user s;
          s2 = log_admin (accept_info_msg user) (req_user req) ''Author'' user s1
      in case objects_get s2 (GENERIC_SUPERUSER_ID cfg) of
           Inl e \<Rightarrow> (Inl e, s2)
         | Inr su \<Rightarrow>
             let s3 = compose su user (application_accept_message cfg (username user)) s2
             in (case send_mail ''yazarlik basvurunuz kabul edildi''
                        (application_accept_message cfg (username user))
                        ''Django Sozluk <correct@email.com>'' [email user] False s3 of
                   (Inl e, s4) \<Rightarrow> (Inl e, s4)
                 | (Inr _, s4) \<Rightarrow> (Inr True, notify (Success (accept_info_msg user)) s4)))"

definition decline_application ::
  "env \<Rightarrow> request \<Rightarrow> author \<Rightarrow> world \<Rightarrow> (error + bool) \<times> world" where
  "decline_application cfg req novice s =
     (let s0 = delete_published novice s;
          user = novice\<lparr>application_status := ''OH'', application_date := None\<rparr>;
          s1 = save user s0;
          s2 = log_admin (decline_info_msg user) (req_user req) ''Author'' user s1
      in case objects_get s2 (GENERIC_SUPERUSER_ID cfg) of
           Inl e \<Rightarrow> (Inl e, s2)
         | Inr su \<Rightarrow>
             let s3 = compose su user (application_decline_message cfg (username user)) s2
             in (case send_mail ''yazarlik basvurunuz reddedildi''
                        (application_decline_message cfg (username user))
                        ''Django Sozluk <correct@email.com>'' [email user] False s3 of
                   (Inl e, s4) \<Rightarrow> (Inl e, s4)
                 | (Inr _, s4) \<Rightarrow> (Inr True, notify (Success (decline_info_msg user)) s4)))"

text \<open>The redirect after a decision; URL reversal is kept symbolic (route name and argument).\<close>

definition redirect_after :: "request \<Rightarrow> response" where
  "redirect_after req =
     (if post_submit_type req = Some ''redirect_back'' then Redirect AdminNoviceList
      else Redirect (AdminNoviceLookup (post_submit_type req)))"

definition post :: "env \<Rightarrow> request \<Rightarrow> author \<Rightarrow> world \<Rightarrow> (error + response) \<times> world" where
  "post cfg req novice s =
     (let operation = post_operation req
      in if operation \<notin> set [Some ''accept'', Some ''decline'']
         then (Inr (Redirect (AdminNoviceLookup (Some (username novice)))),
               notify (Error ''Gecersiz bir islem sectiniz.'') s)
         else if operation = Some ''accept''
         then (case accept_application cfg req novice s of
                 (Inl e, s') \<Rightarrow> (Inl e, s')
               | (Inr _, s') \<Rightarrow> (Inr (redirect_after req), s'))
         else (case decline_application cfg req novice s of
                 (Inl e, s') \<Rightarrow> (Inl e, s')
               | (Inr _, s') \<Rightarrow> (Inr (redirect_after req), s')))"

text \<open>\<open>ListView.get\<close> with this view's \<open>get_queryset\<close> and \<open>get_context_data\<close>.\<close>

definition get :: "env \<Rightarrow> request \<Rightarrow> author \<Rightarrow> world \<Rightarrow> (error + response) \<times> world" where
  "get cfg req novice s =
     (case get_next_username cfg novice s of
        Inl e \<Rightarrow> (Inl e, s)
      | Inr nxt \<Rightarrow>
          (Inr (TemplateResponse ''dictionary/admin/novice_lookup.html''
                  \<lparr>ctx_entries = get_queryset novice s,
                   ctx_title = username novice @ '' isimli caylagin ilk 10 entry'' @ [CHR 0x27] @ ''si'',
                   ctx_next = nxt\<rparr>), s))"

text \<open>\<open>super().dispatch\<close>: the login check of LoginRequiredMixin, then the handler of the
  request method.\<close>

definition super_dispatch ::
  "env \<Rightarrow> request \<Rightarrow> author \<Rightarrow> world \<Rightarrow> (error + response) \<times> world" where
  "super_dispatch cfg req novice s =
     (if \<not> is_authenticated req then (Inr (Redirect LoginPage), s)
      else case req_method req of
             GET \<Rightarrow> get cfg req novice s
           | HEAD \<Rightarrow> get cfg req novice s
           | POST \<Rightarrow> post cfg req novice s
           | OPTIONS \<Rightarrow> (Inr OptionsResponse, s)
           | OTHER \<Rightarrow> (Inr NotAllowed, s))"

definition dispatch :: "env \<Rightarrow> request \<Rightarrow> world \<Rightarrow> (error + response) \<times> world" where
  "dispatch cfg req s =
     (if \<not> has_perm req then (Inr (Redirect LoginPage), s)
      else case get_object_or_404 s (kwargs_username req) of
             Inl e \<Rightarrow> (Inl e, s)
           | Inr novice \<Rightarrow>
               let novices = novice_list cfg s None
               in if \<not> contains novices novice
                  then (Inr (Redirect AdminNoviceList),
                        notify (Error ''kullanici caylak onay listesinde degil.'') s)
                  else if \<not> contains (take 10 novices) novice
                  then (Inr (Redirect AdminNoviceList),
                        notify (Error ''kullanici caylak onay listesinin basinda degil'') s)
                  else super_dispatch cfg req novice s)"

subsection \<open>Vocabulary of the specification\<close>

text \<open>The activity tier and the ranking of the queue, in the words of the specification:
  tier 2 when \<open>last_activity\<close> is at or above the recency threshold, tier 1 otherwise;
  higher tier first, and within a tier the earlier \<open>application_date\<close> first.\<close>

definition tier :: "env \<Rightarrow> timestamp \<Rightarrow> nat" where
  "tier cfg la = (if la \<ge> time_threshold_24h cfg then 2 else 1)"

definition queue_order :: "env \<Rightarrow> author \<Rightarrow> author \<Rightarrow> bool" where
  "queue_order cfg x y \<longleftrightarrow>
     (case (last_activity x, last_activity y) of
        (Some lx, Some ly) \<Rightarrow>
          tier cfg lx > tier cfg ly \<or>
          (tier cfg lx = tier cfg ly \<and>
           (case (application_date x, application_date y) of
              (Some dx, Some dy) \<Rightarrow> dx \<le> dy
            | _ \<Rightarrow> True))
      | _ \<Rightarrow> False)"

text \<open>The pending novices that applied strictly later than \<open>d\<close>, with activity strictly
  above the threshold (\<open>recent\<close>) or strictly below it; and the earliest of a list of
  applicants.\<close>

definition later_candidates :: "env \<Rightarrow> world \<Rightarrow> timestamp \<Rightarrow> bool \<Rightarrow> author list" where
  "later_candidates cfg s d recent =
     filter (\<lambda>a. is_novice a \<and> application_status a = ''PN'' \<and>
                 (case application_date a of Some d' \<Rightarrow> d < d' | None \<Rightarrow> False) \<and>
                 (case last_activity a of
                    Some x \<Rightarrow> if recent then time_threshold_24h cfg < x
                              else x < time_threshold_24h cfg
                  | None \<Rightarrow> False))
       (authors s)"

definition earliest :: "author list \<Rightarrow> author \<Rightarrow> bool" where
  "earliest cs a \<longleftrightarrow>
     a \<in> set cs \<and>
     (\<forall>b\<in>set cs. case (application_date a, application_date b) of
                     (Some da, Some db) \<Rightarrow> da \<le> db
                   | _ \<Rightarrow> False)"

subsection \<open>Concrete states\<close>

text \<open>A threshold of 100, a system account \<open>root\<close>, and three applicants: A (active,
  applied at 1), B (activity exactly at the threshold, applied at 2), C (inactive, applied
  at 1).\<close>

definition cfg0 :: env where
  "cfg0 = \<lparr>time_threshold_24h = 100,
           application_accept_message = (\<lambda>u. ''kabul: '' @ u),
           application_decline_message = (\<lambda>u. ''ret: '' @ u),
           GENERIC_SUPERUSER_ID = 1,
           nulls_smallest = True\<rparr>"

definition root0 :: author where
  "root0 = \<lparr>author_id = 1, username = ''root'', email = ''root@sozluk.org'', is_novice = False,
            application_status = ''AP'', application_date = None, last_activity = Some 500\<rparr>"

definition novA :: author where
  "novA = \<lparr>author_id = 2, username = ''A'', email = ''a@sozluk.org'', is_novice = True,
           application_status = ''PN'', application_date = Some 1, last_activity = Some 150\<rparr>"

definition novB :: author where
  "novB = \<lparr>author_id = 3, username = ''B'', email = ''b@sozluk.org'', is_novice = True,
           application_status = ''PN'', application_date = Some 2, last_activity = Some 100\<rparr>"

definition novC :: author where
  "novC = \<lparr>author_id = 4, username = ''C'', email = ''c@sozluk.org'', is_novice = True,
           application_status = ''PN'', application_date = Some 1, last_activity = Some 50\<rparr>"

definition entries0 :: "entry list" where
  "entries0 = [\<lparr>entry_id = 1, entry_author = 2, is_published = True\<rparr>,
               \<lparr>entry_id = 2, entry_author = 2, is_published = False\<rparr>,
               \<lparr>entry_id = 3, entry_author = 3, is_published = True\<rparr>]"

definition world_of :: "author list \<Rightarrow> bool \<Rightarrow> world" where
  "world_of rows up =
     \<lparr>authors = rows, entries = entries0, messages = [], log_entries = [], outbox = [],
      mail_transport_up = up, flashes = [], trace = []\<rparr>"

definition world0 :: world where
  "world0 = world_of [novC, root0, novB, novA] True"

text \<open>D is active and applied after A; E is inactive and applied after everybody.\<close>

definition novD :: author where
  "novD = \<lparr>author_id = 6, username = ''D'', email = ''d@sozluk.org'', is_novice = True,
           application_status = ''PN'', application_date = Some 3, last_activity = Some 200\<rparr>"

definition novE :: author where
  "novE = \<lparr>author_id = 7, username = ''E'', email = ''e@sozluk.org'', is_novice = True,
           application_status = ''PN'', application_date = Some 4, last_activity = Some 20\<rparr>"

text \<open>Eleven active applicants, applicant \<open>i\<close> having applied at time \<open>i\<close>.\<close>

definition applicant :: "nat \<Rightarrow> author" where
  "applicant i = \<lparr>author_id = 10 + i, username = ''novice'' @ replicate i (CHR ''x''),
                  email = ''n@sozluk.org'', is_novice = True, application_status = ''PN'',
                  application_date = Some (int i), last_activity = Some 150\<rparr>"

definition crowd :: world where
  "crowd = world_of (root0 # map applicant [0..<11]) True"

text \<open>A request of the moderator (user 5) for the applicant named \<open>uname\<close>.\<close>

definition req_of :: "string \<Rightarrow> http_method \<Rightarrow> string option \<Rightarrow> request" where
  "req_of uname m op =
     \<lparr>req_method = m, req_user = 5, is_authenticated = True, has_perm = True,
      kwargs_username = uname, post_operation = op,
      post_submit_type = Some ''redirect_back''\<rparr>"



subsection \<open>The queue builder: proofs\<close>

lemma novice_queryset_set:
  "set (novice_queryset cfg s) =
   {a \<in> set (authors s). last_activity a \<noteq> None \<and> is_novice a \<and> application_status a = ''PN''}"
  by (auto simp add: novice_queryset_def)

lemma key_le_queue_order:
  assumes "last_activity x \<noteq> None" "last_activity y \<noteq> None"
    and "order_key cfg x \<le> order_key cfg y"
  shows "queue_order cfg x y"
  using assms
  by (auto simp: queue_order_def tier_def order_key_def activity_def desc_key_def asc_key_def
           split: option.splits if_splits)

lemma novice_queryset_sorted: "sorted_wrt (queue_order cfg) (novice_queryset cfg s)"
proof -
  have "sorted (map (order_key cfg) (novice_queryset cfg s))"
    unfolding novice_queryset_def by (rule sorted_sort_key)
  then have "sorted_wrt (\<lambda>x y. order_key cfg x \<le> order_key cfg y) (novice_queryset cfg s)"
    by (simp add: sorted_map)
  then show ?thesis
  proof (rule sorted_wrt_mono_rel [rotated])
    fix x y
    assume "x \<in> set (novice_queryset cfg s)" "y \<in> set (novice_queryset cfg s)"
      and "order_key cfg x \<le> order_key cfg y"
    then show "queue_order cfg x y"
      by (intro key_le_queue_order) (auto simp: novice_queryset_set)
  qed
qed

lemma mset_three_filter_single:
  assumes "mset xs = {#a, b, c#}" "P a" "\<not> P b" "\<not> P c"
  shows "filter P xs = [a]"
proof -
  have "mset (filter P xs) = filter_mset P (mset xs)" by simp
  also have "\<dots> = {#a#}" using assms by simp
  finally have "mset (filter P xs) = {#a#}" .
  then show ?thesis by (simp only: mset_single_iff)
qed

lemma queue_example:
  assumes tbl: "mset (authors s) = {#A, B, C#}"
    and elig: "is_novice A \<and> application_status A = ''PN''"
              "is_novice B \<and> application_status B = ''PN''"
              "is_novice C \<and> application_status C = ''PN''"
    and act: "last_activity A = Some la" "time_threshold_24h cfg \<le> la"
             "last_activity B = Some lb" "time_threshold_24h cfg \<le> lb"
             "last_activity C = Some lc" "lc < time_threshold_24h cfg"
    and dates: "application_date A = Some d1" "application_date B = Some d2" "d1 < d2"
               "application_date C = Some d1"
  shows "novice_queryset cfg s = [A, B, C]"
proof -
  let ?f = "order_key cfg"
  let ?P = "\<lambda>a. last_activity a \<noteq> None \<and> is_novice a \<and> application_status a = ''PN''"
  let ?xs = "filter ?P (authors s)"
  have kA: "?f A = ((1, -2), (1, d1))" and kB: "?f B = ((1, -2), (1, d2))"
    and kC: "?f C = ((1, -1), (1, d1))"
    using act dates by (simp_all add: order_key_def desc_key_def asc_key_def activity_def)
  have m: "mset ?xs = {#A, B, C#}"
    using tbl elig act by simp
  have m': "mset ?xs = {#B, A, C#}" "mset ?xs = {#C, A, B#}"
    using m by (simp_all add: add_mset_commute)
  have "sort_key ?f ?xs = [A, B, C]"
  proof (rule properties_for_sort_key)
    show "mset [A, B, C] = mset ?xs" using m by simp
    show "sorted (map ?f [A, B, C])" using dates(3) by (simp add: kA kB kC)
    fix k assume "k \<in> set [A, B, C]"
    then consider "k = A" | "k = B" | "k = C" by auto
    then show "filter (\<lambda>x. ?f k = ?f x) [A, B, C] = filter (\<lambda>x. ?f k = ?f x) ?xs"
    proof cases
      case 1
      have "filter (\<lambda>x. ?f A = ?f x) ?xs = [A]"
        using dates(3) by (intro mset_three_filter_single [OF m]) (simp_all add: kA kB kC)
      then show ?thesis using dates(3) unfolding 1 by (simp add: kA kB kC)
    next
      case 2
      have "filter (\<lambda>x. ?f B = ?f x) ?xs = [B]"
        using dates(3) by (intro mset_three_filter_single [OF m'(1)]) (simp_all add: kA kB kC)
      then show ?thesis using dates(3) unfolding 2 by (simp add: kA kB kC)
    next
      case 3
      have "filter (\<lambda>x. ?f C = ?f x) ?xs = [C]"
        using dates(3) by (intro mset_three_filter_single [OF m'(2)]) (simp_all add: kA kB kC)
      then show ?thesis using dates(3) unfolding 3 by (simp add: kA kB kC)
    qed
  qed
  then show ?thesis by (simp add: novice_queryset_def)
qed

text \<open>
  C1. Without a limit, \<open>novice_list\<close> returns exactly the applicants that are novices,
  pending and have a last activity; the result is ranked by activity tier, higher tier
  first (tier 2 when \<open>last_activity\<close> is at or above the threshold, equality included,
  tier 1 otherwise), and by ascending application date within a tier. In particular a
  table that holds A (active, applied first), B (active, applied later) and C (inactive,
  applied when A did), in any storage order, gives the queue A, B, C.
\<close>

theorem novice_list_ranked:
  "mset (novice_list cfg s None) =
     mset (filter (\<lambda>a. is_novice a \<and> application_status a = ''PN'' \<and> last_activity a \<noteq> None)
             (authors s)) \<and>
   sorted_wrt (queue_order cfg) (novice_list cfg s None) \<and>
   (mset (authors s) = {#A, B, C#} \<and>
    is_novice A \<and> application_status A = ''PN'' \<and>
    is_novice B \<and> application_status B = ''PN'' \<and>
    is_novice C \<and> application_status C = ''PN'' \<and>
    last_activity A = Some la \<and> time_threshold_24h cfg \<le> la \<and>
    last_activity B = Some lb \<and> time_threshold_24h cfg \<le> lb \<and>
    last_activity C = Some lc \<and> lc < time_threshold_24h cfg \<and>
    application_date A = Some d1 \<and> application_date B = Some d2 \<and> d1 < d2 \<and>
    application_date C = Some d1
    \<longrightarrow> novice_list cfg s None = [A, B, C])"
proof (intro conjI impI)
  have e: "filter (\<lambda>a. last_activity a \<noteq> None \<and> is_novice a \<and> application_status a = ''PN'')
             (authors s) =
           filter (\<lambda>a. is_novice a \<and> application_status a = ''PN'' \<and> last_activity a \<noteq> None)
             (authors s)"
    by (rule filter_cong) auto
  show "mset (novice_list cfg s None) =
     mset (filter (\<lambda>a. is_novice a \<and> application_status a = ''PN'' \<and> last_activity a \<noteq> None)
             (authors s))"
    unfolding novice_list_def novice_queryset_def e by simp
  show "sorted_wrt (queue_order cfg) (novice_list cfg s None)"
    by (simp add: novice_list_def novice_queryset_sorted)
next
  assume h: "mset (authors s) = {#A, B, C#} \<and>
    is_novice A \<and> application_status A = ''PN'' \<and>
    is_novice B \<and> application_status B = ''PN'' \<and>
    is_novice C \<and> application_status C = ''PN'' \<and>
    last_activity A = Some la \<and> time_threshold_24h cfg \<le> la \<and>
    last_activity B = Some lb \<and> time_threshold_24h cfg \<le> lb \<and>
    last_activity C = Some lc \<and> lc < time_threshold_24h cfg \<and>
    application_date A = Some d1 \<and> application_date B = Some d2 \<and> d1 < d2 \<and>
    application_date C = Some d1"
  then have "novice_queryset cfg s = [A, B, C]"
    by (intro queue_example [where la = la and lb = lb and lc = lc and ?d1.0 = d1 and ?d2.0 = d2])
       simp_all
  then show "novice_list cfg s None = [A, B, C]"
    by (simp add: novice_list_def)
qed

theorem novice_list_ranked_witness:
  "mset (authors (world_of [novC, novB, novA] True)) = {#novA, novB, novC#} \<and>
   last_activity novB = Some (time_threshold_24h cfg0) \<and>
   novice_list cfg0 (world_of [novC, novB, novA] True) None = [novA, novB, novC] \<and>
   sorted_wrt (queue_order cfg0) [novA, novB, novC]"
proof -
  let ?w = "world_of [novC, novB, novA] True"
  have h: "mset (authors ?w) = {#novA, novB, novC#} \<and>
    is_novice novA \<and> application_status novA = ''PN'' \<and>
    is_novice novB \<and> application_status novB = ''PN'' \<and>
    is_novice novC \<and> application_status novC = ''PN'' \<and>
    last_activity novA = Some 150 \<and> time_threshold_24h cfg0 \<le> 150 \<and>
    last_activity novB = Some 100 \<and> time_threshold_24h cfg0 \<le> 100 \<and>
    last_activity novC = Some 50 \<and> 50 < time_threshold_24h cfg0 \<and>
    application_date novA = Some 1 \<and> application_date novB = Some 2 \<and> (1::int) < 2 \<and>
    application_date novC = Some 1"
    by (simp add: world_of_def novA_def novB_def novC_def cfg0_def)
  note t = novice_list_ranked [of cfg0 ?w novA novB novC 150 100 50 1 2]
  from t h have q: "novice_list cfg0 ?w None = [novA, novB, novC]" by blast
  from t have "sorted_wrt (queue_order cfg0) (novice_list cfg0 ?w None)" by blast
  with q h show ?thesis by (simp add: novB_def cfg0_def)
qed

subsection \<open>Store operations: proofs\<close>

lemma filter_key_distinct:
  "distinct (map f xs) \<Longrightarrow> x \<in> set xs \<Longrightarrow> filter (\<lambda>a. f a = f x) xs = [x]"
proof (induction xs)
  case Nil
  then show ?case by simp
next
  case (Cons y ys)
  show ?case
  proof (cases "y = x")
    case True
    from Cons.prems(1) have "f y \<notin> f ` set ys" by simp
    then have "\<forall>a\<in>set ys. f a \<noteq> f x" unfolding True by (metis imageI)
    then have "filter (\<lambda>a. f a = f x) ys = []"
      by (simp add: filter_empty_conv)
    with True show ?thesis by simp
  next
    case False
    with Cons.prems have "x \<in> set ys" "f y \<noteq> f x" by auto
    with Cons show ?thesis by simp
  qed
qed

lemma objects_get_distinct:
  assumes "distinct (map author_id (authors s))" "a \<in> set (authors s)"
  shows "objects_get s (author_id a) = Inr a"
  using filter_key_distinct [OF assms] by (simp add: objects_get_def)

lemma objects_get_member:
  assumes "distinct (map author_id (authors s))" "k \<in> set (map author_id (authors s))"
  shows "\<exists>a. objects_get s k = Inr a \<and> author_id a = k"
proof -
  from assms(2) obtain a where "a \<in> set (authors s)" "author_id a = k" by auto
  with objects_get_distinct [OF assms(1)] show ?thesis by blast
qed

lemma save_existing:
  assumes "author_id u \<in> set (map author_id (authors s))"
  shows "save u s = s\<lparr>authors := map (\<lambda>r. if author_id r = author_id u then u else r) (authors s),
                      trace := trace s @ [AuthorSaved (author_id u)]\<rparr>"
  using assms by (simp add: save_def)

lemma map_id_replace:
  "author_id u = k \<Longrightarrow>
   map author_id (map (\<lambda>r. if author_id r = k then u else r) xs) = map author_id xs"
  by (induction xs) auto

lemma saved_row_lookup:
  assumes d: "distinct (map author_id (authors s))" and n: "novice \<in> set (authors s)"
    and u: "author_id u = author_id novice"
    and a: "authors s' = map (\<lambda>r. if author_id r = author_id novice then u else r) (authors s)"
  shows "objects_get s' (author_id novice) = Inr u"
proof -
  have "distinct (map author_id (authors s'))"
    using d u by (simp add: a map_id_replace del: map_map)
  moreover have "u \<in> set (authors s')" using n by (auto simp: a)
  ultimately have "objects_get s' (author_id u) = Inr u" by (rule objects_get_distinct)
  with u show ?thesis by simp
qed

lemma replace_own_row:
  assumes "distinct (map author_id xs)" "novice \<in> set xs"
  shows "map (\<lambda>r. if author_id r = author_id novice then u else r) xs =
         map (\<lambda>r. if r = novice then u else r) xs"
proof (rule map_cong [OF refl])
  fix r assume "r \<in> set xs"
  with assms have "author_id r = author_id novice \<longleftrightarrow> r = novice"
    by (auto simp: distinct_map dest: inj_onD)
  then show "(if author_id r = author_id novice then u else r) = (if r = novice then u else r)"
    by simp
qed

lemma get_object_username:
  assumes "get_object_or_404 s uname = Inr a"
  shows "username a = uname" and "a \<in> set (authors s)"
proof -
  from assms have "filter (\<lambda>a. username a = uname) (authors s) = [a]"
    by (auto simp: get_object_or_404_def split: list.splits)
  then have "a \<in> set (filter (\<lambda>a. username a = uname) (authors s))" by simp
  then show "username a = uname" and "a \<in> set (authors s)" by simp_all
qed

lemma contains_take: "contains (take n qs) a \<Longrightarrow> contains qs a"
  by (auto simp: contains_def dest: in_set_takeD)

lemma window_in_authors:
  "novice \<in> set (take 10 (novice_list cfg s None)) \<Longrightarrow> novice \<in> set (authors s)"
  by (auto simp: novice_list_def novice_queryset_set dest: in_set_takeD)

subsection \<open>Entry to the review view\<close>

lemma dispatch_in_window:
  assumes "has_perm req" "get_object_or_404 s (kwargs_username req) = Inr novice"
    "contains (take 10 (novice_list cfg s None)) novice"
  shows "dispatch cfg req s = super_dispatch cfg req novice s"
  using assms contains_take [of 10 "novice_list cfg s None" novice]
  by (simp add: dispatch_def Let_def)

lemma dispatch_absent:
  assumes "has_perm req" "get_object_or_404 s (kwargs_username req) = Inr novice"
    "\<not> contains (novice_list cfg s None) novice"
  shows "dispatch cfg req s = (Inr (Redirect AdminNoviceList),
           s\<lparr>flashes := flashes s @ [Error ''kullanici caylak onay listesinde degil.'']\<rparr>)"
  using assms by (simp add: dispatch_def Let_def notify_def)

lemma dispatch_beyond:
  assumes "has_perm req" "get_object_or_404 s (kwargs_username req) = Inr novice"
    "contains (novice_list cfg s None) novice"
    "\<not> contains (take 10 (novice_list cfg s None)) novice"
  shows "dispatch cfg req s = (Inr (Redirect AdminNoviceList),
           s\<lparr>flashes := flashes s @ [Error ''kullanici caylak onay listesinin basinda degil'']\<rparr>)"
  using assms by (simp add: dispatch_def Let_def notify_def)

text \<open>Without the permission the request is sent to the login page, and a username
  that matches no user raises before the queue is looked at.\<close>

lemma dispatch_not_entered:
  "\<not> has_perm req \<Longrightarrow> dispatch cfg req s = (Inr (Redirect LoginPage), s)"
  "has_perm req \<Longrightarrow> get_object_or_404 s (kwargs_username req) = Inl e \<Longrightarrow>
     dispatch cfg req s = (Inl e, s)"
  by (simp_all add: dispatch_def)

lemma dispatch_outside_no_writes:
  assumes "has_perm req" "get_object_or_404 s (kwargs_username req) = Inr novice"
    "\<not> contains (take 10 (novice_list cfg s None)) novice"
  shows "\<exists>m. dispatch cfg req s = (Inr (Redirect AdminNoviceList), s\<lparr>flashes := flashes s @ [Error m]\<rparr>)"
proof (cases "contains (novice_list cfg s None) novice")
  case True
  with assms show ?thesis by (blast intro: dispatch_beyond)
next
  case False
  with assms show ?thesis by (blast intro: dispatch_absent)
qed

text \<open>
  C2. A request for the review view of an applicant who is not in the unlimited queue, or
  who is in it but not among its first ten, gets an error notification and a redirect to
  the queue view, and none of the applicant, content, message, audit and mail stores is
  written; only an applicant among the first ten of the queue reaches the view's handler.
\<close>

theorem dispatch_window_check:
  assumes "has_perm req" and "get_object_or_404 s (kwargs_username req) = Inr novice"
  shows
    "(\<not> contains (novice_list cfg s None) novice \<longrightarrow>
        dispatch cfg req s =
          (Inr (Redirect AdminNoviceList),
           s\<lparr>flashes := flashes s @ [Error ''kullanici caylak onay listesinde degil.'']\<rparr>)) \<and>
     (contains (novice_list cfg s None) novice \<and>
      \<not> contains (take 10 (novice_list cfg s None)) novice \<longrightarrow>
        dispatch cfg req s =
          (Inr (Redirect AdminNoviceList),
           s\<lparr>flashes := flashes s @
                [Error ''kullanici caylak onay listesinin basinda degil'']\<rparr>)) \<and>
     (\<not> contains (take 10 (novice_list cfg s None)) novice \<longrightarrow>
        fst (dispatch cfg req s) = Inr (Redirect AdminNoviceList) \<and>
        authors (snd (dispatch cfg req s)) = authors s \<and>
        entries (snd (dispatch cfg req s)) = entries s \<and>
        messages (snd (dispatch cfg req s)) = messages s \<and>
        log_entries (snd (dispatch cfg req s)) = log_entries s \<and>
        outbox (snd (dispatch cfg req s)) = outbox s \<and>
        trace (snd (dispatch cfg req s)) = trace s \<and>
        length (flashes (snd (dispatch cfg req s))) = Suc (length (flashes s))) \<and>
     (contains (take 10 (novice_list cfg s None)) novice \<longrightarrow>
        dispatch cfg req s = super_dispatch cfg req novice s)"
proof (intro conjI impI)
  assume "\<not> contains (novice_list cfg s None) novice"
  with assms show "dispatch cfg req s =
          (Inr (Redirect AdminNoviceList),
           s\<lparr>flashes := flashes s @ [Error ''kullanici caylak onay listesinde degil.'']\<rparr>)"
    by (rule dispatch_absent)
next
  assume "contains (novice_list cfg s None) novice \<and>
      \<not> contains (take 10 (novice_list cfg s None)) novice"
  with assms show "dispatch cfg req s =
          (Inr (Redirect AdminNoviceList),
           s\<lparr>flashes := flashes s @
                [Error ''kullanici caylak onay listesinin basinda degil'']\<rparr>)"
    by (blast intro: dispatch_beyond)
next
  assume "contains (take 10 (novice_list cfg s None)) novice"
  with assms show "dispatch cfg req s = super_dispatch cfg req novice s"
    by (rule dispatch_in_window)
next
  assume "\<not> contains (take 10 (novice_list cfg s None)) novice"
  with assms obtain m where
    r: "dispatch cfg req s = (Inr (Redirect AdminNoviceList), s\<lparr>flashes := flashes s @ [Error m]\<rparr>)"
    using dispatch_outside_no_writes by blast
  show "fst (dispatch cfg req s) = Inr (Redirect AdminNoviceList)"
    and "authors (snd (dispatch cfg req s)) = authors s"
    and "entries (snd (dispatch cfg req s)) = entries s"
    and "messages (snd (dispatch cfg req s)) = messages s"
    and "log_entries (snd (dispatch cfg req s)) = log_entries s"
    and "outbox (snd (dispatch cfg req s)) = outbox s"
    and "trace (snd (dispatch cfg req s)) = trace s"
    and "length (flashes (snd (dispatch cfg req s))) = Suc (length (flashes s))"
    by (simp_all add: r)
qed

lemma crowd_queue_ids:
  "map author_id (novice_list cfg0 crowd None) = [10, 11, 12, 13, 14, 15, 16, 17, 18, 19, 20]"
  by code_simp

lemma crowd_lookup:
  "get_object_or_404 crowd (username (applicant 10)) = Inr (applicant 10)"
  by code_simp

lemma world0_lookup:
  "get_object_or_404 world0 ''root'' = Inr root0"
  "get_object_or_404 world0 ''A'' = Inr novA"
  by code_simp+

lemma world0_queue: "novice_list cfg0 world0 None = [novA, novB, novC]"
  by code_simp

theorem dispatch_window_check_witness:
  "(contains (novice_list cfg0 crowd None) (applicant 10) \<and>
    \<not> contains (take 10 (novice_list cfg0 crowd None)) (applicant 10) \<and>
    dispatch cfg0 (req_of (username (applicant 10)) GET None) crowd =
      (Inr (Redirect AdminNoviceList),
       crowd\<lparr>flashes := [Error ''kullanici caylak onay listesinin basinda degil'']\<rparr>)) \<and>
   (\<not> contains (novice_list cfg0 world0 None) root0 \<and>
    dispatch cfg0 (req_of ''root'' POST (Some ''accept'')) world0 =
      (Inr (Redirect AdminNoviceList),
       world0\<lparr>flashes := [Error ''kullanici caylak onay listesinde degil.'']\<rparr>) \<and>
    authors (snd (dispatch cfg0 (req_of ''root'' POST (Some ''accept'')) world0)) =
      authors world0) \<and>
   (contains (take 10 (novice_list cfg0 world0 None)) novA \<and>
    dispatch cfg0 (req_of ''A'' GET None) world0 =
      super_dispatch cfg0 (req_of ''A'' GET None) novA world0)"
proof -
  have p: "has_perm (req_of u m op)" for u m op by (simp add: req_of_def)
  have k: "kwargs_username (req_of u m op) = u" for u m op by (simp add: req_of_def)
  have c1: "contains (novice_list cfg0 crowd None) (applicant 10)"
    and c2: "\<not> contains (take 10 (novice_list cfg0 crowd None)) (applicant 10)"
    by (simp_all add: contains_def take_map [symmetric] crowd_queue_ids applicant_def)
  have c3: "\<not> contains (novice_list cfg0 world0 None) root0"
    and c4: "contains (take 10 (novice_list cfg0 world0 None)) novA"
    by (simp_all add: contains_def world0_queue root0_def novA_def novB_def novC_def)
  have f: "flashes crowd = []" "flashes world0 = []"
    by (simp_all add: crowd_def world0_def world_of_def)
  note t1 = dispatch_window_check [of "req_of (username (applicant 10)) GET None" crowd
      "applicant 10" cfg0, OF p, unfolded k, OF crowd_lookup]
  note t2 = dispatch_window_check [of "req_of ''root'' POST (Some ''accept'')" world0
      root0 cfg0, OF p, unfolded k, OF world0_lookup(1)]
  note t3 = dispatch_window_check [of "req_of ''A'' GET None" world0
      novA cfg0, OF p, unfolded k, OF world0_lookup(2)]
  from t1 c1 c2 f(1) have
    "dispatch cfg0 (req_of (username (applicant 10)) GET None) crowd =
      (Inr (Redirect AdminNoviceList),
       crowd\<lparr>flashes := [Error ''kullanici caylak onay listesinin basinda degil'']\<rparr>)"
    by simp
  moreover from t2 c3 f(2) have
    "dispatch cfg0 (req_of ''root'' POST (Some ''accept'')) world0 =
      (Inr (Redirect AdminNoviceList),
       world0\<lparr>flashes := [Error ''kullanici caylak onay listesinde degil.'']\<rparr>)"
    by simp
  moreover from t3 c4 have
    "dispatch cfg0 (req_of ''A'' GET None) world0 =
      super_dispatch cfg0 (req_of ''A'' GET None) novA world0"
    by simp
  ultimately show ?thesis using c1 c2 c3 c4 by simp
qed

subsection \<open>The decision endpoint\<close>

lemma post_invalid:
  assumes "post_operation req \<noteq> Some ''accept''" "post_operation req \<noteq> Some ''decline''"
  shows "post cfg req novice s =
    (Inr (Redirect (AdminNoviceLookup (Some (username novice)))),
     s\<lparr>flashes := flashes s @ [Error ''Gecersiz bir islem sectiniz.'']\<rparr>)"
  using assms by (simp add: post_def notify_def)

text \<open>
  C6. A POST for an applicant in the reviewable window whose operation is neither
  \<open>accept\<close> nor \<open>decline\<close> (a missing operation included) gets an error notification and
  a redirect to the detail view of that same applicant; the applicant rows and the
  content, message, audit and mail stores are unchanged.
\<close>

theorem invalid_operation_rejected:
  assumes "has_perm req" and "is_authenticated req" and "req_method req = POST"
    and "get_object_or_404 s (kwargs_username req) = Inr novice"
    and "contains (take 10 (novice_list cfg s None)) novice"
    and "post_operation req \<noteq> Some ''accept''" and "post_operation req \<noteq> Some ''decline''"
  shows "dispatch cfg req s =
           (Inr (Redirect (AdminNoviceLookup (Some (kwargs_username req)))),
            s\<lparr>flashes := flashes s @ [Error ''Gecersiz bir islem sectiniz.'']\<rparr>) \<and>
         username novice = kwargs_username req \<and>
         authors (snd (dispatch cfg req s)) = authors s \<and>
         entries (snd (dispatch cfg req s)) = entries s \<and>
         messages (snd (dispatch cfg req s)) = messages s \<and>
         log_entries (snd (dispatch cfg req s)) = log_entries s \<and>
         outbox (snd (dispatch cfg req s)) = outbox s \<and>
         trace (snd (dispatch cfg req s)) = trace s"
proof -
  have u: "username novice = kwargs_username req"
    using assms(4) by (rule get_object_username)
  have "dispatch cfg req s = super_dispatch cfg req novice s"
    using assms(1,4,5) by (rule dispatch_in_window)
  also have "\<dots> = post cfg req novice s"
    using assms(2,3) by (simp add: super_dispatch_def)
  also have "\<dots> = (Inr (Redirect (AdminNoviceLookup (Some (username novice)))),
     s\<lparr>flashes := flashes s @ [Error ''Gecersiz bir islem sectiniz.'']\<rparr>)"
    using assms(6,7) by (rule post_invalid)
  finally show ?thesis using u by simp
qed

theorem invalid_operation_rejected_witness:
  "post_operation (req_of ''A'' POST (Some ''delete'')) \<noteq> Some ''accept'' \<and>
   post_operation (req_of ''A'' POST (Some ''delete'')) \<noteq> Some ''decline'' \<and>
   contains (take 10 (novice_list cfg0 world0 None)) novA \<and>
   dispatch cfg0 (req_of ''A'' POST (Some ''delete'')) world0 =
     (Inr (Redirect (AdminNoviceLookup (Some ''A''))),
      world0\<lparr>flashes := [Error ''Gecersiz bir islem sectiniz.'']\<rparr>) \<and>
   authors (snd (dispatch cfg0 (req_of ''A'' POST (Some ''delete'')) world0)) =
     [novC, root0, novB, novA]"
proof -
  let ?r = "req_of ''A'' POST (Some ''delete'')"
  have h: "has_perm ?r" "is_authenticated ?r" "req_method ?r = POST"
    "post_operation ?r \<noteq> Some ''accept''" "post_operation ?r \<noteq> Some ''decline''"
    by (simp_all add: req_of_def)
  have k: "kwargs_username ?r = ''A''" by (simp add: req_of_def)
  have g: "get_object_or_404 world0 (kwargs_username ?r) = Inr novA"
    unfolding k by (rule world0_lookup)
  have c: "contains (take 10 (novice_list cfg0 world0 None)) novA"
    by (simp add: contains_def world0_queue)
  have w: "flashes world0 = []" "authors world0 = [novC, root0, novB, novA]"
    by (simp_all add: world0_def world_of_def)
  from invalid_operation_rejected [OF h(1,2,3) g c h(4,5)] h(4,5) c k w
  show ?thesis by simp
qed

subsection \<open>Accept and decline\<close>

lemma accept_application_run:
  assumes d: "distinct (map author_id (authors s))"
    and n: "novice \<in> set (authors s)"
    and g: "GENERIC_SUPERUSER_ID cfg \<in> set (map author_id (authors s))"
  shows "accept_application cfg req novice s =
     (let s3 = s\<lparr>authors := map (\<lambda>r. if author_id r = author_id novice
                             then novice\<lparr>application_status := ''AP'', is_novice := False\<rparr> else r)
                      (authors s),
        log_entries := log_entries s @
          [\<lparr>actor = req_user req, description = accept_info_msg novice,
            content_type = ''Author'', object_id = author_id novice\<rparr>],
        messages := messages s @
          [\<lparr>sender = GENERIC_SUPERUSER_ID cfg, recipient = author_id novice,
            body = application_accept_message cfg (username novice)\<rparr>],
        trace := trace s @ [AuthorSaved (author_id novice), AuditWritten (author_id novice),
                            MessageStored (author_id novice)]\<rparr>
      in if mail_transport_up s
         then (Inr True,
               s3\<lparr>outbox := outbox s @
                     [\<lparr>subject = ''yazarlik basvurunuz kabul edildi'',
                       mail_body = application_accept_message cfg (username novice),
                       from_email = ''Django Sozluk <correct@email.com>'',
                       recipient_list = [email novice]\<rparr>],
                  flashes := flashes s @ [Success (accept_info_msg novice)],
                  trace := trace s @ [AuthorSaved (author_id novice), AuditWritten (author_id novice),
                            MessageStored (author_id novice), MailSent [email novice]]\<rparr>)
         else (Inl SMTPException, s3))"
proof -
  let ?user = "novice\<lparr>application_status := ''AP'', is_novice := False\<rparr>"
  let ?s1 = "save ?user s"
  let ?s2 = "log_admin (accept_info_msg ?user) (req_user req) ''Author'' ?user ?s1"
  from n have idn: "author_id ?user \<in> set (map author_id (authors s))" by auto
  have a2: "map author_id (authors ?s2) = map author_id (authors s)"
    using idn by (simp add: save_existing log_admin_def map_id_replace del: map_map)
  obtain su where su: "objects_get ?s2 (GENERIC_SUPERUSER_ID cfg) = Inr su"
      "author_id su = GENERIC_SUPERUSER_ID cfg"
    using objects_get_member [of ?s2 "GENERIC_SUPERUSER_ID cfg"] d g a2 by auto
  show ?thesis
    unfolding accept_application_def Let_def su(1)
    using idn su(2)
    by (simp add: save_existing log_admin_def compose_def send_mail_def notify_def
          accept_info_msg_def)
qed

lemma decline_application_run:
  assumes d: "distinct (map author_id (authors s))"
    and n: "novice \<in> set (authors s)"
    and g: "GENERIC_SUPERUSER_ID cfg \<in> set (map author_id (authors s))"
  shows "decline_application cfg req novice s =
     (let s3 = s\<lparr>authors := map (\<lambda>r. if author_id r = author_id novice
                             then novice\<lparr>application_status := ''OH'', application_date := None\<rparr>
                             else r)
                      (authors s),
        entries := filter (\<lambda>e. \<not> (is_published e \<and> entry_author e = author_id novice))
                     (entries s),
        log_entries := log_entries s @
          [\<lparr>actor = req_user req, description = decline_info_msg novice,
            content_type = ''Author'', object_id = author_id novice\<rparr>],
        messages := messages s @
          [\<lparr>sender = GENERIC_SUPERUSER_ID cfg, recipient = author_id novice,
            body = application_decline_message cfg (username novice)\<rparr>],
        trace := trace s @ [EntriesDeleted (author_id novice), AuthorSaved (author_id novice),
                            AuditWritten (author_id novice), MessageStored (author_id novice)]\<rparr>
      in if mail_transport_up s
         then (Inr True,
               s3\<lparr>outbox := outbox s @
                     [\<lparr>subject = ''yazarlik basvurunuz reddedildi'',
                       mail_body = application_decline_message cfg (username novice),
                       from_email = ''Django Sozluk <correct@email.com>'',
                       recipient_list = [email novice]\<rparr>],
                  flashes := flashes s @ [Success (decline_info_msg novice)],
                  trace := trace s @ [EntriesDeleted (author_id novice),
                            AuthorSaved (author_id novice), AuditWritten (author_id novice),
                            MessageStored (author_id novice), MailSent [email novice]]\<rparr>)
         else (Inl SMTPException, s3))"
proof -
  let ?user = "novice\<lparr>application_status := ''OH'', application_date := None\<rparr>"
  let ?s0 = "delete_published novice s"
  let ?s1 = "save ?user ?s0"
  let ?s2 = "log_admin (decline_info_msg ?user) (req_user req) ''Author'' ?user ?s1"
  from n have idn: "author_id ?user \<in> set (map author_id (authors ?s0))"
    by (auto simp: delete_published_def)
  have a2: "map author_id (authors ?s2) = map author_id (authors s)"
    using idn
    by (simp add: save_existing log_admin_def map_id_replace delete_published_def del: map_map)
  obtain su where su: "objects_get ?s2 (GENERIC_SUPERUSER_ID cfg) = Inr su"
      "author_id su = GENERIC_SUPERUSER_ID cfg"
    using objects_get_member [of ?s2 "GENERIC_SUPERUSER_ID cfg"] d g a2 by auto
  show ?thesis
    unfolding decline_application_def Let_def su(1)
    using idn su(2)
    by (simp add: save_existing log_admin_def compose_def send_mail_def notify_def
          delete_published_def published_by_def decline_info_msg_def)
qed

lemma world0_facts:
  "distinct (map author_id (authors world0))"
  "novA \<in> set (take 10 (novice_list cfg0 world0 None))"
  "GENERIC_SUPERUSER_ID cfg0 \<in> set (map author_id (authors world0))"
  "mail_transport_up world0"
  "novA \<in> set (authors world0)"
  by (simp_all add: world0_queue)
     (simp_all add: world0_def world_of_def cfg0_def novA_def novB_def novC_def root0_def)

text \<open>
  C3. For an applicant in the reviewable window, with the system account present and the
  mail transport up, accepting returns normally; afterwards the stored row of the
  applicant has status \<open>AP\<close> and is no novice, exactly one direct message from the
  system account to the applicant, exactly one mail to the applicant's address and
  exactly one audit record by the acting admin about the applicant have been added, and
  the content items are the same.
\<close>

theorem accept_application_effects:
  assumes "distinct (map author_id (authors s))"
    and "novice \<in> set (take 10 (novice_list cfg s None))"
    and "GENERIC_SUPERUSER_ID cfg \<in> set (map author_id (authors s))"
    and "mail_transport_up s"
    and "s' = snd (accept_application cfg req novice s)"
  shows "fst (accept_application cfg req novice s) = Inr True \<and>
         objects_get s' (author_id novice) =
           Inr (novice\<lparr>application_status := ''AP'', is_novice := False\<rparr>) \<and>
         messages s' = messages s @
           [\<lparr>sender = GENERIC_SUPERUSER_ID cfg, recipient = author_id novice,
             body = application_accept_message cfg (username novice)\<rparr>] \<and>
         outbox s' = outbox s @
           [\<lparr>subject = ''yazarlik basvurunuz kabul edildi'',
             mail_body = application_accept_message cfg (username novice),
             from_email = ''Django Sozluk <correct@email.com>'',
             recipient_list = [email novice]\<rparr>] \<and>
         log_entries s' = log_entries s @
           [\<lparr>actor = req_user req, description = accept_info_msg novice,
             content_type = ''Author'', object_id = author_id novice\<rparr>] \<and>
         entries s' = entries s"
proof -
  have n: "novice \<in> set (authors s)" using assms(2) by (rule window_in_authors)
  note run = accept_application_run [OF assms(1) n assms(3), of req]
  have a: "authors s' = map (\<lambda>r. if author_id r = author_id novice
             then novice\<lparr>application_status := ''AP'', is_novice := False\<rparr> else r) (authors s)"
    using assms(4) by (simp add: assms(5) run)
  have "objects_get s' (author_id novice) =
          Inr (novice\<lparr>application_status := ''AP'', is_novice := False\<rparr>)"
    using assms(1) n _ a by (rule saved_row_lookup) simp
  then show ?thesis using assms(4) by (simp add: assms(5) run)
qed

theorem accept_application_effects_witness:
  "novA \<in> set (take 10 (novice_list cfg0 world0 None)) \<and>
   fst (accept_application cfg0 (req_of ''A'' POST (Some ''accept'')) novA world0) = Inr True \<and>
   objects_get (snd (accept_application cfg0 (req_of ''A'' POST (Some ''accept'')) novA world0)) 2
     = Inr (novA\<lparr>application_status := ''AP'', is_novice := False\<rparr>) \<and>
   messages (snd (accept_application cfg0 (req_of ''A'' POST (Some ''accept'')) novA world0))
     = [\<lparr>sender = 1, recipient = 2, body = ''kabul: A''\<rparr>] \<and>
   map recipient_list
     (outbox (snd (accept_application cfg0 (req_of ''A'' POST (Some ''accept'')) novA world0)))
     = [ [''a@sozluk.org''] ] \<and>
   map actor
     (log_entries (snd (accept_application cfg0 (req_of ''A'' POST (Some ''accept'')) novA world0)))
     = [5] \<and>
   entries (snd (accept_application cfg0 (req_of ''A'' POST (Some ''accept'')) novA world0))
     = entries0"
proof -
  have v: "author_id novA = 2" "username novA = ''A''" "email novA = ''a@sozluk.org''"
    "GENERIC_SUPERUSER_ID cfg0 = 1" "application_accept_message cfg0 ''A'' = ''kabul: A''"
    "req_user (req_of ''A'' POST (Some ''accept'')) = 5"
    "messages world0 = []" "outbox world0 = []" "log_entries world0 = []"
    "entries world0 = entries0"
    by (simp_all add: novA_def cfg0_def req_of_def world0_def world_of_def)
  from accept_application_effects [OF world0_facts(1,2,3,4) refl,
      of "req_of ''A'' POST (Some ''accept'')"] world0_facts(2)
  show ?thesis by (simp add: v)
qed

text \<open>
  C4. For an applicant in the reviewable window, with the system account present and the
  mail transport up, declining returns normally; afterwards the published content items
  of the applicant are gone and all other items are kept, the stored row of the
  applicant has status \<open>OH\<close> and no application date, and exactly one direct message,
  one mail and one audit record have been added (the bulk delete adds none).
\<close>

theorem decline_application_effects:
  assumes "distinct (map author_id (authors s))"
    and "novice \<in> set (take 10 (novice_list cfg s None))"
    and "GENERIC_SUPERUSER_ID cfg \<in> set (map author_id (authors s))"
    and "mail_transport_up s"
    and "s' = snd (decline_application cfg req novice s)"
  shows "fst (decline_application cfg req novice s) = Inr True \<and>
         entries s' =
           filter (\<lambda>e. \<not> (is_published e \<and> entry_author e = author_id novice)) (entries s) \<and>
         objects_get s' (author_id novice) =
           Inr (novice\<lparr>application_status := ''OH'', application_date := None\<rparr>) \<and>
         messages s' = messages s @
           [\<lparr>sender = GENERIC_SUPERUSER_ID cfg, recipient = author_id novice,
             body = application_decline_message cfg (username novice)\<rparr>] \<and>
         outbox s' = outbox s @
           [\<lparr>subject = ''yazarlik basvurunuz reddedildi'',
             mail_body = application_decline_message cfg (username novice),
             from_email = ''Django Sozluk <correct@email.com>'',
             recipient_list = [email novice]\<rparr>] \<and>
         log_entries s' = log_entries s @
           [\<lparr>actor = req_user req, description = decline_info_msg novice,
             content_type = ''Author'', object_id = author_id novice\<rparr>]"
proof -
  have n: "novice \<in> set (authors s)" using assms(2) by (rule window_in_authors)
  note run = decline_application_run [OF assms(1) n assms(3), of req]
  have a: "authors s' = map (\<lambda>r. if author_id r = author_id novice
             then novice\<lparr>application_status := ''OH'', application_date := None\<rparr> else r)
             (authors s)"
    using assms(4) by (simp add: assms(5) run)
  have "objects_get s' (author_id novice) =
          Inr (novice\<lparr>application_status := ''OH'', application_date := None\<rparr>)"
    using assms(1) n _ a by (rule saved_row_lookup) simp
  then show ?thesis using assms(4) by (simp add: assms(5) run)
qed

theorem decline_application_effects_witness:
  "novA \<in> set (take 10 (novice_list cfg0 world0 None)) \<and>
   fst (decline_application cfg0 (req_of ''A'' POST (Some ''decline'')) novA world0) = Inr True \<and>
   entries (snd (decline_application cfg0 (req_of ''A'' POST (Some ''decline'')) novA world0))
     = [\<lparr>entry_id = 2, entry_author = 2, is_published = False\<rparr>,
        \<lparr>entry_id = 3, entry_author = 3, is_published = True\<rparr>] \<and>
   objects_get (snd (decline_application cfg0 (req_of ''A'' POST (Some ''decline'')) novA world0)) 2
     = Inr (novA\<lparr>application_status := ''OH'', application_date := None\<rparr>) \<and>
   messages (snd (decline_application cfg0 (req_of ''A'' POST (Some ''decline'')) novA world0))
     = [\<lparr>sender = 1, recipient = 2, body = ''ret: A''\<rparr>] \<and>
   map recipient_list
     (outbox (snd (decline_application cfg0 (req_of ''A'' POST (Some ''decline'')) novA world0)))
     = [ [''a@sozluk.org''] ] \<and>
   map object_id
     (log_entries (snd (decline_application cfg0 (req_of ''A'' POST (Some ''decline'')) novA world0)))
     = [2]"
proof -
  have v: "author_id novA = 2" "username novA = ''A''" "email novA = ''a@sozluk.org''"
    "GENERIC_SUPERUSER_ID cfg0 = 1" "application_decline_message cfg0 ''A'' = ''ret: A''"
    "messages world0 = []" "outbox world0 = []" "log_entries world0 = []"
    by (simp_all add: novA_def cfg0_def world0_def world_of_def)
  have e: "entries world0 = entries0"
    by (simp add: world0_def world_of_def)
  from decline_application_effects [OF world0_facts(1,2,3,4) refl,
      of "req_of ''A'' POST (Some ''decline'')"] world0_facts(2)
  show ?thesis by (simp add: v e entries0_def)
qed

text \<open>
  C7 (as the code has it). Accepting performs its writes in this order: the applicant's
  row is saved, the audit record is written, the direct message is stored, and the mail is
  sent last. When the mail transport is down the action fails with the first three
  writes done: the audit record is already in the log.
\<close>

theorem accept_application_order:
  assumes "distinct (map author_id (authors s))"
    and "novice \<in> set (take 10 (novice_list cfg s None))"
    and "GENERIC_SUPERUSER_ID cfg \<in> set (map author_id (authors s))"
    and "s' = snd (accept_application cfg req novice s)"
  shows "(mail_transport_up s \<longrightarrow>
            trace s' = trace s @
              [AuthorSaved (author_id novice), AuditWritten (author_id novice),
               MessageStored (author_id novice), MailSent [email novice]]) \<and>
         (\<not> mail_transport_up s \<longrightarrow>
            fst (accept_application cfg req novice s) = Inl SMTPException \<and>
            trace s' = trace s @
              [AuthorSaved (author_id novice), AuditWritten (author_id novice),
               MessageStored (author_id novice)] \<and>
            log_entries s' = log_entries s @
              [\<lparr>actor = req_user req, description = accept_info_msg novice,
                content_type = ''Author'', object_id = author_id novice\<rparr>] \<and>
            outbox s' = outbox s)"
proof -
  have n: "novice \<in> set (authors s)" using assms(2) by (rule window_in_authors)
  note run = accept_application_run [OF assms(1) n assms(3), of req]
  show ?thesis by (simp add: assms(4) run)
qed

lemma world0_down_facts:
  "distinct (map author_id (authors (world_of [novC, root0, novB, novA] False)))"
  "novA \<in> set (take 10 (novice_list cfg0 (world_of [novC, root0, novB, novA] False) None))"
  "GENERIC_SUPERUSER_ID cfg0 \<in>
     set (map author_id (authors (world_of [novC, root0, novB, novA] False)))"
  "\<not> mail_transport_up (world_of [novC, root0, novB, novA] False)"
  "novA \<in> set (authors (world_of [novC, root0, novB, novA] False))"
proof -
  have "novice_list cfg0 (world_of [novC, root0, novB, novA] False) None = [novA, novB, novC]"
    by code_simp
  then show
    "novA \<in> set (take 10 (novice_list cfg0 (world_of [novC, root0, novB, novA] False) None))"
    by simp
qed (simp_all add: world_of_def cfg0_def novA_def novB_def novC_def root0_def)

theorem accept_application_order_witness:
  "novA \<in> set (take 10 (novice_list cfg0 world0 None)) \<and> mail_transport_up world0 \<and>
   trace (snd (accept_application cfg0 (req_of ''A'' POST (Some ''accept'')) novA world0)) =
     [AuthorSaved 2, AuditWritten 2, MessageStored 2, MailSent [''a@sozluk.org'']] \<and>
   \<not> mail_transport_up (world_of [novC, root0, novB, novA] False) \<and>
   trace (snd (accept_application cfg0 (req_of ''A'' POST (Some ''accept'')) novA
                 (world_of [novC, root0, novB, novA] False))) =
     [AuthorSaved 2, AuditWritten 2, MessageStored 2] \<and>
   map object_id
     (log_entries (snd (accept_application cfg0 (req_of ''A'' POST (Some ''accept'')) novA
                          (world_of [novC, root0, novB, novA] False)))) = [2]"
proof -
  have v: "author_id novA = 2" "email novA = ''a@sozluk.org''"
    "trace world0 = []" "trace (world_of [novC, root0, novB, novA] False) = []"
    "log_entries (world_of [novC, root0, novB, novA] False) = []"
    by (simp_all add: novA_def world0_def world_of_def)
  from accept_application_order [OF world0_facts(1,2,3) refl,
      of "req_of ''A'' POST (Some ''accept'')"]
    accept_application_order [OF world0_down_facts(1,2,3) refl,
      of "req_of ''A'' POST (Some ''accept'')"]
    world0_facts(2,4) world0_down_facts(4)
  show ?thesis by (simp add: v)
qed

text \<open>
  C7 as stated (status update, then message, then mail, and the audit record last) fails:
  for applicant A in the example state the audit record is the second write, not the last.
\<close>

theorem accept_audit_last_counterexample:
  "\<not> (trace (snd (accept_application cfg0 (req_of ''A'' POST (Some ''accept'')) novA world0)) =
        trace world0 @
          [AuthorSaved (author_id novA), MessageStored (author_id novA),
           MailSent [email novA], AuditWritten (author_id novA)])"
proof -
  have "trace (snd (accept_application cfg0 (req_of ''A'' POST (Some ''accept'')) novA world0)) =
        trace world0 @
          [AuthorSaved (author_id novA), AuditWritten (author_id novA),
           MessageStored (author_id novA), MailSent [email novA]]"
    using world0_facts(4)
    by (simp add: accept_application_run [OF world0_facts(1,5,3)])
  then show ?thesis by simp
qed

lemma accept_fails_without_mail:
  assumes "\<not> mail_transport_up s"
  shows "isl (fst (accept_application cfg req novice s))"
  using assms
  unfolding accept_application_def Let_def
  by (auto simp add: save_def log_admin_def compose_def send_mail_def notify_def
          split: sum.splits prod.splits)

lemma decline_fails_without_mail:
  assumes "\<not> mail_transport_up s"
  shows "isl (fst (decline_application cfg req novice s))"
  using assms
  unfolding decline_application_def Let_def
  by (auto simp add: save_def log_admin_def compose_def send_mail_def notify_def
        delete_published_def split: sum.splits prod.splits)

lemma post_propagates:
  assumes "post_operation req = Some ''accept'' \<or> post_operation req = Some ''decline''"
    and "fst (accept_application cfg req novice s) = Inl ea"
    and "fst (decline_application cfg req novice s) = Inl ed"
  shows "fst (post cfg req novice s) =
           Inl (if post_operation req = Some ''accept'' then ea else ed)"
  using assms
  by (auto simp: post_def split: prod.splits sum.splits)

text \<open>
  C8. Both transitions call \<open>send_mail\<close> with \<open>fail_silently=False\<close>: when the mail
  transport is down that call raises (with \<open>fail_silently=True\<close> it would return 0),
  the accept and the decline action fail, and so does
  the POST that asked for them; with the applicant and the system account stored the
  error that reaches the caller is the mail error, and no mail is recorded as sent.
\<close>

theorem mail_failure_propagates:
  assumes "\<not> mail_transport_up s"
  shows "send_mail subj txt frm rcpts False s = (Inl SMTPException, s) \<and>
         send_mail subj txt frm rcpts True s = (Inr 0, s) \<and>
         isl (fst (accept_application cfg req novice s)) \<and>
         isl (fst (decline_application cfg req novice s)) \<and>
         (post_operation req = Some ''accept'' \<or> post_operation req = Some ''decline'' \<longrightarrow>
            isl (fst (post cfg req novice s))) \<and>
         (distinct (map author_id (authors s)) \<and> novice \<in> set (authors s) \<and>
          GENERIC_SUPERUSER_ID cfg \<in> set (map author_id (authors s)) \<longrightarrow>
            fst (accept_application cfg req novice s) = Inl SMTPException \<and>
            fst (decline_application cfg req novice s) = Inl SMTPException \<and>
            outbox (snd (accept_application cfg req novice s)) = outbox s \<and>
            outbox (snd (decline_application cfg req novice s)) = outbox s \<and>
            (post_operation req = Some ''accept'' \<or> post_operation req = Some ''decline'' \<longrightarrow>
               fst (post cfg req novice s) = Inl SMTPException))"
proof (intro conjI impI)
  show "send_mail subj txt frm rcpts False s = (Inl SMTPException, s)"
    using assms by (simp add: send_mail_def)
  show "send_mail subj txt frm rcpts True s = (Inr 0, s)"
    using assms by (simp add: send_mail_def)
  show a: "isl (fst (accept_application cfg req novice s))"
    using assms by (rule accept_fails_without_mail)
  show d: "isl (fst (decline_application cfg req novice s))"
    using assms by (rule decline_fails_without_mail)
  {
    assume op: "post_operation req = Some ''accept'' \<or> post_operation req = Some ''decline''"
    from a d obtain ea ed where "fst (accept_application cfg req novice s) = Inl ea"
      "fst (decline_application cfg req novice s) = Inl ed"
      by (auto simp: isl_def)
    from post_propagates [OF op this]
    show "isl (fst (post cfg req novice s))" by simp
  }
  {
    assume wf: "distinct (map author_id (authors s)) \<and> novice \<in> set (authors s) \<and>
          GENERIC_SUPERUSER_ID cfg \<in> set (map author_id (authors s))"
    then have ra: "accept_application cfg req novice s =
        (Inl SMTPException, snd (accept_application cfg req novice s))"
      and rd: "decline_application cfg req novice s =
        (Inl SMTPException, snd (decline_application cfg req novice s))"
      using assms by (simp_all add: accept_application_run decline_application_run)
    show fa: "fst (accept_application cfg req novice s) = Inl SMTPException"
      using ra by (metis fst_conv)
    show fd: "fst (decline_application cfg req novice s) = Inl SMTPException"
      using rd by (metis fst_conv)
    show "outbox (snd (accept_application cfg req novice s)) = outbox s"
      using wf assms by (simp add: accept_application_run)
    show "outbox (snd (decline_application cfg req novice s)) = outbox s"
      using wf assms by (simp add: decline_application_run)
    assume op: "post_operation req = Some ''accept'' \<or> post_operation req = Some ''decline''"
    from post_propagates [OF op fa fd]
    show "fst (post cfg req novice s) = Inl SMTPException" by simp
  }
qed

theorem mail_failure_propagates_witness:
  "\<not> mail_transport_up (world_of [novC, root0, novB, novA] False) \<and>
   fst (accept_application cfg0 (req_of ''A'' POST (Some ''accept'')) novA
          (world_of [novC, root0, novB, novA] False)) = Inl SMTPException \<and>
   fst (decline_application cfg0 (req_of ''A'' POST (Some ''accept'')) novA
          (world_of [novC, root0, novB, novA] False)) = Inl SMTPException \<and>
   fst (post cfg0 (req_of ''A'' POST (Some ''accept'')) novA
          (world_of [novC, root0, novB, novA] False)) = Inl SMTPException \<and>
   outbox (snd (accept_application cfg0 (req_of ''A'' POST (Some ''accept'')) novA
          (world_of [novC, root0, novB, novA] False))) = []"
proof -
  have o: "post_operation (req_of ''A'' POST (Some ''accept'')) = Some ''accept''"
    "outbox (world_of [novC, root0, novB, novA] False) = []"
    by (simp_all add: req_of_def world_of_def)
  from mail_failure_propagates [OF world0_down_facts(4),
      of _ _ _ _ cfg0 "req_of ''A'' POST (Some ''accept'')" novA]
    world0_down_facts o
  show ?thesis by simp
qed

lemma accept_authors:
  assumes "novice \<in> set (authors s)"
  shows "authors (snd (accept_application cfg req novice s)) =
         map (\<lambda>r. if author_id r = author_id novice
                  then novice\<lparr>application_status := ''AP'', is_novice := False\<rparr> else r)
             (authors s)"
proof -
  from assms have idn: "author_id (novice\<lparr>application_status := ''AP'', is_novice := False\<rparr>)
     \<in> set (map author_id (authors s))" by auto
  show ?thesis
    unfolding accept_application_def Let_def
    using idn
    by (simp add: save_existing log_admin_def compose_def send_mail_def notify_def
          split: sum.splits prod.splits)
qed

text \<open>
  C9. Accepting changes the applicant table only in the accepted applicant's row, and in
  that row only \<open>application_status\<close> and \<open>is_novice\<close>: every row keeps its position,
  identifier, username, email, application date and last activity, and every row other
  than the applicant's is unchanged, whether or not the later steps of the action
  succeed.
\<close>

theorem accept_application_frame:
  assumes "distinct (map author_id (authors s))"
    and "novice \<in> set (authors s)"
    and "s' = snd (accept_application cfg req novice s)"
  shows "authors s' =
           map (\<lambda>r. if r = novice then r\<lparr>application_status := ''AP'', is_novice := False\<rparr>
                    else r) (authors s) \<and>
         length (authors s') = length (authors s) \<and>
         (\<forall>i < length (authors s).
            author_id (authors s' ! i) = author_id (authors s ! i) \<and>
            username (authors s' ! i) = username (authors s ! i) \<and>
            email (authors s' ! i) = email (authors s ! i) \<and>
            application_date (authors s' ! i) = application_date (authors s ! i) \<and>
            last_activity (authors s' ! i) = last_activity (authors s ! i) \<and>
            (authors s ! i \<noteq> novice \<longrightarrow> authors s' ! i = authors s ! i))"
proof -
  have "authors s' = map (\<lambda>r. if author_id r = author_id novice
          then novice\<lparr>application_status := ''AP'', is_novice := False\<rparr> else r) (authors s)"
    unfolding assms(3) using assms(2) by (rule accept_authors)
  also have "\<dots> = map (\<lambda>r. if r = novice
          then novice\<lparr>application_status := ''AP'', is_novice := False\<rparr> else r) (authors s)"
    using assms(1,2) by (rule replace_own_row)
  also have "\<dots> = map (\<lambda>r. if r = novice
          then r\<lparr>application_status := ''AP'', is_novice := False\<rparr> else r) (authors s)"
    by (rule map_cong) auto
  finally have a: "authors s' = map (\<lambda>r. if r = novice
          then r\<lparr>application_status := ''AP'', is_novice := False\<rparr> else r) (authors s)" .
  then show ?thesis by simp
qed

theorem accept_application_frame_witness:
  "distinct (map author_id (authors world0)) \<and> novA \<in> set (authors world0) \<and>
   authors (snd (accept_application cfg0 (req_of ''A'' POST (Some ''accept'')) novA world0)) =
     [novC, root0, novB, novA\<lparr>application_status := ''AP'', is_novice := False\<rparr>] \<and>
   application_date
     (authors (snd (accept_application cfg0 (req_of ''A'' POST (Some ''accept'')) novA world0)) ! 3)
     = Some 1"
proof -
  have v: "authors world0 = [novC, root0, novB, novA]"
    by (simp add: world0_def world_of_def)
  have ne: "novC \<noteq> novA" "root0 \<noteq> novA" "novB \<noteq> novA"
    by (simp_all add: novA_def novB_def novC_def root0_def)
  have d: "application_date novA = Some 1" by (simp add: novA_def)
  from accept_application_frame [OF world0_facts(1,5) refl,
      of cfg0 "req_of ''A'' POST (Some ''accept'')"] world0_facts(1,5)
  show ?thesis by (simp add: v ne d)
qed

subsection \<open>The next applicant\<close>

lemma first_by_application_date_None:
  "first_by_application_date cfg qs = None \<longleftrightarrow> qs = []"
proof -
  have "sort_key (\<lambda>a. asc_key cfg (application_date a)) qs = [] \<longleftrightarrow> qs = []"
    by (metis length_sort length_0_conv)
  then show ?thesis
    by (auto simp: first_by_application_date_def split: list.splits)
qed

lemma first_by_application_date_Nil: "first_by_application_date cfg [] = None"
  by (simp add: first_by_application_date_def)

lemma first_by_application_date_Some:
  assumes "first_by_application_date cfg qs = Some a"
  shows "a \<in> set qs"
    and "\<forall>b\<in>set qs. asc_key cfg (application_date a) \<le> asc_key cfg (application_date b)"
proof -
  let ?f = "\<lambda>a. asc_key cfg (application_date a)"
  from assms obtain rest where r: "sort_key ?f qs = a # rest"
    by (auto simp: first_by_application_date_def split: list.splits)
  have "set (sort_key ?f qs) = set qs" by simp
  with r have s: "set qs = insert a (set rest)" by simp
  then show "a \<in> set qs" by simp
  have "sorted (map ?f (sort_key ?f qs))" by (rule sorted_sort_key)
  with r have "\<forall>b\<in>set rest. ?f a \<le> ?f b" by simp
  with s show "\<forall>b\<in>set qs. ?f a \<le> ?f b" by simp
qed

lemma first_earliest:
  assumes "first_by_application_date cfg (later_candidates cfg s d recent) = Some a"
  shows "earliest (later_candidates cfg s d recent) a"
proof -
  have dates: "\<forall>b\<in>set (later_candidates cfg s d recent). \<exists>x. application_date b = Some x"
    by (auto simp: later_candidates_def split: option.splits)
  from first_by_application_date_Some [OF assms] dates show ?thesis
    unfolding earliest_def by (fastforce simp: asc_key_def split: option.splits)
qed

lemma first_of_candidates:
  assumes "later_candidates cfg s d recent \<noteq> []"
  shows "\<exists>a. first_by_application_date cfg (later_candidates cfg s d recent) = Some a \<and>
             earliest (later_candidates cfg s d recent) a"
proof -
  from assms obtain a
    where "first_by_application_date cfg (later_candidates cfg s d recent) = Some a"
    using first_by_application_date_None [of cfg "later_candidates cfg s d recent"] by auto
  then show ?thesis using first_earliest by blast
qed

lemma get_next_novice_unfold:
  assumes "last_activity novice = Some la" "application_date novice = Some d"
  shows "get_next_novice cfg novice s =
     (case (if la \<ge> time_threshold_24h cfg
            then first_by_application_date cfg (later_candidates cfg s d True) else None) of
        Some a \<Rightarrow> Inr (Some a)
      | None \<Rightarrow> Inr (first_by_application_date cfg (later_candidates cfg s d False)))"
  using assms
  by (simp add: get_next_novice_def later_candidates_def later_pending_def conj_ac
           cong: option.case_cong)

lemma later_candidates_props:
  assumes "a \<in> set (later_candidates cfg s d recent)"
  shows "a \<in> set (authors s)" and "is_novice a" and "application_status a = ''PN''"
    and "\<exists>d'. application_date a = Some d' \<and> d < d'"
    and "\<exists>x. last_activity a = Some x \<and>
             (if recent then time_threshold_24h cfg < x else x < time_threshold_24h cfg)"
  using assms by (auto simp: later_candidates_def split: option.splits)

lemma single_queue_no_later:
  assumes "novice_list cfg s None = [novice]" "application_date novice = Some d"
  shows "later_candidates cfg s d recent = []"
proof (rule ccontr)
  assume "later_candidates cfg s d recent \<noteq> []"
  then obtain a where a: "a \<in> set (later_candidates cfg s d recent)"
    by (cases "later_candidates cfg s d recent") auto
  from later_candidates_props [OF a] have "a \<in> set (novice_queryset cfg s)"
    by (auto simp: novice_queryset_set)
  with assms(1) have "a = novice" by (simp add: novice_list_def)
  with later_candidates_props(4) [OF a] assms(2) show False by simp
qed


text \<open>
  For a current applicant with a last activity and an application date: when the
  applicant's activity is at or above the threshold and some pending novice has activity
  strictly above the threshold and applied strictly later, the result is the username of
  the earliest such applicant; otherwise (no such applicant, or the current applicant
  below the threshold) it is the username of the earliest pending novice with activity
  strictly below the threshold who applied strictly later; and it is none when neither
  search finds anyone, in particular when the current applicant is the whole queue.
\<close>

theorem get_next_username_cases:
  assumes "last_activity novice = Some la" and "application_date novice = Some d"
  shows
    "(time_threshold_24h cfg \<le> la \<and> later_candidates cfg s d True \<noteq> [] \<longrightarrow>
        (\<exists>a. earliest (later_candidates cfg s d True) a \<and>
             get_next_username cfg novice s = Inr (Some (username a)))) \<and>
     ((la < time_threshold_24h cfg \<or> later_candidates cfg s d True = []) \<and>
      later_candidates cfg s d False \<noteq> [] \<longrightarrow>
        (\<exists>a. earliest (later_candidates cfg s d False) a \<and>
             get_next_username cfg novice s = Inr (Some (username a)))) \<and>
     ((la < time_threshold_24h cfg \<or> later_candidates cfg s d True = []) \<and>
      later_candidates cfg s d False = [] \<longrightarrow>
        get_next_username cfg novice s = Inr None) \<and>
     (novice_list cfg s None = [novice] \<longrightarrow> get_next_username cfg novice s = Inr None)"
proof (intro conjI impI)
  note u = get_next_novice_unfold [OF assms, of cfg s]
  have none_true: "first_by_application_date cfg (later_candidates cfg s d True) = None"
    if "later_candidates cfg s d True = []"
    using that by (simp add: first_by_application_date_None)
  {
    assume h: "time_threshold_24h cfg \<le> la \<and> later_candidates cfg s d True \<noteq> []"
    then obtain a where a: "first_by_application_date cfg (later_candidates cfg s d True) = Some a"
      "earliest (later_candidates cfg s d True) a"
      using first_of_candidates by blast
    with h have "get_next_username cfg novice s = Inr (Some (username a))"
      by (simp add: get_next_username_def u)
    with a(2) show "\<exists>a. earliest (later_candidates cfg s d True) a \<and>
             get_next_username cfg novice s = Inr (Some (username a))" by blast
  }
  {
    assume h: "(la < time_threshold_24h cfg \<or> later_candidates cfg s d True = []) \<and>
      later_candidates cfg s d False \<noteq> []"
    then obtain a where a: "first_by_application_date cfg (later_candidates cfg s d False) = Some a"
      "earliest (later_candidates cfg s d False) a"
      using first_of_candidates by blast
    from h have "get_next_novice cfg novice s =
        Inr (first_by_application_date cfg (later_candidates cfg s d False))"
      using none_true by (auto simp: u)
    with a(1) have "get_next_username cfg novice s = Inr (Some (username a))"
      by (simp add: get_next_username_def)
    with a(2) show "\<exists>a. earliest (later_candidates cfg s d False) a \<and>
             get_next_username cfg novice s = Inr (Some (username a))" by blast
  }
  {
    assume h: "(la < time_threshold_24h cfg \<or> later_candidates cfg s d True = []) \<and>
      later_candidates cfg s d False = []"
    then have "get_next_novice cfg novice s =
        Inr (first_by_application_date cfg (later_candidates cfg s d False))"
      using none_true by (auto simp: u)
    with h show "get_next_username cfg novice s = Inr None"
      by (simp add: get_next_username_def first_by_application_date_None)
  }
  {
    assume q: "novice_list cfg s None = [novice]"
    have e: "later_candidates cfg s d True = []" "later_candidates cfg s d False = []"
      using q assms(2) by (rule single_queue_no_later)+
    then have "get_next_novice cfg novice s = Inr None"
      by (simp add: u first_by_application_date_Nil)
    then show "get_next_username cfg novice s = Inr None"
      by (simp add: get_next_username_def)
  }
qed

lemma example_candidates:
  "later_candidates cfg0 (world_of [novC, root0, novB, novA, novD] True) 1 True = [novD]"
  "later_candidates cfg0 (world_of [novE, novC, root0, novB, novA] True) 1 True = []"
  "later_candidates cfg0 (world_of [novE, novC, root0, novB, novA] True) 1 False = [novE]"
  "later_candidates cfg0 world0 1 True = []"
  "later_candidates cfg0 world0 1 False = []"
  "novice_list cfg0 (world_of [root0, novA] True) None = [novA]"
  by code_simp+

theorem get_next_username_cases_witness:
  "last_activity novA = Some 150 \<and> application_date novA = Some 1 \<and>
   time_threshold_24h cfg0 \<le> 150 \<and>
   get_next_username cfg0 novA (world_of [novC, root0, novB, novA, novD] True)
     = Inr (Some ''D'') \<and>
   get_next_username cfg0 novA (world_of [novE, novC, root0, novB, novA] True)
     = Inr (Some ''E'') \<and>
   get_next_username cfg0 novA world0 = Inr None \<and>
   novice_list cfg0 (world_of [root0, novA] True) None = [novA] \<and>
   get_next_username cfg0 novA (world_of [root0, novA] True) = Inr None"
proof -
  have h: "last_activity novA = Some 150" "application_date novA = Some 1"
    by (simp_all add: novA_def)
  have t: "time_threshold_24h cfg0 \<le> 150" by (simp add: cfg0_def)
  have e: "earliest [x] a \<longleftrightarrow> a = x \<and> application_date x \<noteq> None" for x a :: author
    by (auto simp: earliest_def split: option.splits)
  have n: "username novD = ''D''" "username novE = ''E''"
    by (simp_all add: novD_def novE_def)
  from get_next_username_cases [OF h, of cfg0 "world_of [novC, root0, novB, novA, novD] True"] t
  have 1: "get_next_username cfg0 novA (world_of [novC, root0, novB, novA, novD] True)
     = Inr (Some ''D'')"
    by (auto simp: example_candidates e n)
  from get_next_username_cases [OF h, of cfg0 "world_of [novE, novC, root0, novB, novA] True"]
  have 2: "get_next_username cfg0 novA (world_of [novE, novC, root0, novB, novA] True)
     = Inr (Some ''E'')"
    by (auto simp: example_candidates e n)
  from get_next_username_cases [OF h, of cfg0 world0]
  have 3: "get_next_username cfg0 novA world0 = Inr None"
    by (simp add: example_candidates)
  from get_next_username_cases [OF h, of cfg0 "world_of [root0, novA] True"]
  have 4: "get_next_username cfg0 novA (world_of [root0, novA] True) = Inr None"
    by (simp add: example_candidates)
  from h t 1 2 3 4 example_candidates(6) show ?thesis by simp
qed


lemma get_next_novice_Some:
  assumes "get_next_novice cfg novice s = Inr (Some a)"
  shows "\<exists>d recent. application_date novice = Some d \<and>
                    a \<in> set (later_candidates cfg s d recent)"
proof -
  from assms obtain la d where h: "last_activity novice = Some la" "application_date novice = Some d"
    by (auto simp: get_next_novice_def split: option.splits)
  from assms have
    "first_by_application_date cfg (later_candidates cfg s d True) = Some a \<or>
     first_by_application_date cfg (later_candidates cfg s d False) = Some a"
    unfolding get_next_novice_unfold [OF h] by (auto split: option.splits if_splits)
  then have "a \<in> set (later_candidates cfg s d True) \<or> a \<in> set (later_candidates cfg s d False)"
    using first_by_application_date_Some(1) by blast
  with h(2) show ?thesis by blast
qed

text \<open>
  C10. The next-applicant computation can return none although the queue ranks other
  applicants after the current one: in the example state the queue is A, B, C, where B's
  activity equals the threshold and C is below the threshold and applied no later than
  A, and the next applicant of A is none. In every state the applicant returned as next
  has an activity different from the threshold and applied strictly later than the
  current applicant.
\<close>

theorem next_skips_queue_members:
  "(\<exists>cfg' s' cur x y.
      novice_list cfg' s' None = [cur, x, y] \<and>
      last_activity x = Some (time_threshold_24h cfg') \<and>
      (\<exists>ly dy dc. last_activity y = Some ly \<and> ly < time_threshold_24h cfg' \<and>
                  application_date y = Some dy \<and> application_date cur = Some dc \<and> dy \<le> dc) \<and>
      get_next_username cfg' cur s' = Inr None) \<and>
   (\<forall>u. get_next_username cfg novice s = Inr (Some u) \<longrightarrow>
      (\<exists>a\<in>set (authors s).
         get_next_novice cfg novice s = Inr (Some a) \<and> u = username a \<and>
         last_activity a \<noteq> Some (time_threshold_24h cfg) \<and>
         (\<exists>d d'. application_date novice = Some d \<and> application_date a = Some d' \<and> d < d')))"
proof (intro conjI allI impI)
  have "novice_list cfg0 world0 None = [novA, novB, novC]" by (rule world0_queue)
  moreover have "last_activity novB = Some (time_threshold_24h cfg0)"
    by (simp add: novB_def cfg0_def)
  moreover have "\<exists>ly dy dc. last_activity novC = Some ly \<and> ly < time_threshold_24h cfg0 \<and>
      application_date novC = Some dy \<and> application_date novA = Some dc \<and> dy \<le> dc"
    by (simp add: novC_def novA_def cfg0_def)
  moreover have "get_next_username cfg0 novA world0 = Inr None"
    by code_simp
  ultimately show "\<exists>cfg' s' cur x y.
      novice_list cfg' s' None = [cur, x, y] \<and>
      last_activity x = Some (time_threshold_24h cfg') \<and>
      (\<exists>ly dy dc. last_activity y = Some ly \<and> ly < time_threshold_24h cfg' \<and>
                  application_date y = Some dy \<and> application_date cur = Some dc \<and> dy \<le> dc) \<and>
      get_next_username cfg' cur s' = Inr None"
    by blast
next
  fix u
  assume "get_next_username cfg novice s = Inr (Some u)"
  then obtain a where a: "get_next_novice cfg novice s = Inr (Some a)" "u = username a"
    by (auto simp: get_next_username_def split: sum.splits)
  from get_next_novice_Some [OF a(1)] obtain d recent
    where d: "application_date novice = Some d" "a \<in> set (later_candidates cfg s d recent)"
    by blast
  from later_candidates_props [OF d(2)] d(1) a
  show "\<exists>a\<in>set (authors s).
         get_next_novice cfg novice s = Inr (Some a) \<and> u = username a \<and>
         last_activity a \<noteq> Some (time_threshold_24h cfg) \<and>
         (\<exists>d d'. application_date novice = Some d \<and> application_date a = Some d' \<and> d < d')"
    by (intro bexI [of _ a]) (auto split: if_splits)
qed

theorem next_skips_queue_members_witness:
  "get_next_username cfg0 novA (world_of [novC, root0, novB, novA, novD] True)
     = Inr (Some ''D'') \<and>
   (\<exists>a\<in>set (authors (world_of [novC, root0, novB, novA, novD] True)).
      get_next_novice cfg0 novA (world_of [novC, root0, novB, novA, novD] True) = Inr (Some a) \<and>
      ''D'' = username a \<and>
      last_activity a \<noteq> Some (time_threshold_24h cfg0) \<and>
      (\<exists>d d'. application_date novA = Some d \<and> application_date a = Some d' \<and> d < d'))"
proof -
  have g: "get_next_username cfg0 novA (world_of [novC, root0, novB, novA, novD] True)
     = Inr (Some ''D'')"
    by code_simp
  from next_skips_queue_members [of cfg0 novA "world_of [novC, root0, novB, novA, novD] True"] g
  show ?thesis by blast
qed

end
